theory Spec2Isabelle
  imports Main
begin

section \<open>Strings and errors\<close>

text \<open>
  A Python \<open>str\<close> is modelled as a \<open>string\<close>; each \<open>char\<close> stands for one code
  point below 256. An exception is a value of the type \<open>error\<close>. \<open>IndexError\<close> is
  what \<open>random.choice\<close> raises on an empty sequence. \<open>NoAvailableDestinationError\<close>
  is the error the specification names for the destination capability; the source defines
  no such exception class and no statement of the source raises it, so no function below
  returns it.
\<close>

datatype error = IndexError | NoAvailableDestinationError

section \<open>BookTravelPlugin\<close>

text \<open>
  \<^verbatim>\<open>return f"Flight booked to {location} on {date}."\<close>
  The class has no fields, so \<open>self\<close> is left out.
\<close>

definition book_flight :: "string \<Rightarrow> string \<Rightarrow> string" where
  "book_flight date location = ''Flight booked to '' @ location @ '' on '' @ date @ ''.''"

section \<open>DestinationPlugin\<close>

record DestinationPlugin =
  destinations :: "string list"
  latest_destination :: "string option"

text \<open>The constructor \<open>__init__\<close>: the ten destinations, no latest destination yet.\<close>

definition DestinationPlugin_init :: DestinationPlugin where
  "DestinationPlugin_init =
     \<lparr>destinations =
        [''Barcelona, Spain'', ''Paris, France'', ''Berlin, Germany'', ''Tokyo, Japan'',
         ''Sydney, Australia'', ''New York, USA'', ''Cairo, Egypt'',
         ''Cape Town, South Africa'', ''Rio de Janeiro, Brazil'', ''Bali, Indonesia''],
      latest_destination = None\<rparr>"

text \<open>
  \<open>random.choice(seq)\<close> raises \<open>IndexError\<close> on an empty sequence and returns
  \<open>seq[randbelow(len(seq))]\<close> otherwise. The random source is the argument \<open>r\<close>:
  the index drawn is \<open>r mod len(seq)\<close>, so every index below \<open>len(seq)\<close> is the
  outcome of some \<open>r\<close>, and no other is.
\<close>

definition choice :: "nat \<Rightarrow> 'a list \<Rightarrow> error + 'a" where
  "choice r xs = (if xs = [] then Inl IndexError else Inr (xs ! (r mod length xs)))"

text \<open>
  Lines 76 to 80 of \<open>get_random_destination\<close>: a copy of the list, from which the first
  occurrence of the latest destination is removed when the list holds it
  (\<open>list.remove\<close> removes the first occurrence only; \<open>None in list\<close> is false for a
  list of strings).
\<close>

definition available_destinations :: "DestinationPlugin \<Rightarrow> string list" where
  "available_destinations self =
     (case latest_destination self of
        None \<Rightarrow> destinations self
      | Some d \<Rightarrow>
          if d \<in> set (destinations self) then remove1 d (destinations self)
          else destinations self)"

text \<open>
  \<open>get_random_destination\<close> returns its result or the exception raised, the lines it
  printed, and the plugin afterwards. An exception of \<open>random.choice\<close> leaves the method
  before anything is printed or assigned.
\<close>

definition get_random_destination ::
    "nat \<Rightarrow> DestinationPlugin \<Rightarrow> (error + string) \<times> string list \<times> DestinationPlugin" where
  "get_random_destination r self =
     (case choice r (available_destinations self) of
        Inl e \<Rightarrow> (Inl e, [], self)
      | Inr next_destination \<Rightarrow>
          (Inr next_destination,
           [''Selected destination: '' @ next_destination],
           self\<lparr>latest_destination := Some next_destination\<rparr>))"

text \<open>
  Successive invocations on one plugin object, one random draw for each; the results are
  collected in call order and the plugin is threaded through.
\<close>

fun invocations :: "nat list \<Rightarrow> DestinationPlugin \<Rightarrow> (error + string) list \<times> DestinationPlugin" where
  "invocations [] self = ([], self)"
| "invocations (r # rs) self =
     (case get_random_destination r self of
        (res, out, self') \<Rightarrow>
          (case invocations rs self' of (ress, self'') \<Rightarrow> (res # ress, self'')))"

text \<open>
  The property of a plugin that holds between calls once one call has returned: a latest
  destination is recorded and it is one of the destinations.
\<close>

definition latest_is_member :: "DestinationPlugin \<Rightarrow> bool" where
  "latest_is_member self =
     (case latest_destination self of None \<Rightarrow> False | Some d \<Rightarrow> d \<in> set (destinations self))"

text \<open>The values returned by the calls of a sequence that returned normally, in call order.\<close>

fun returned :: "(error + string) list \<Rightarrow> string list" where
  "returned [] = []"
| "returned (Inl e # ress) = returned ress"
| "returned (Inr v # ress) = v # returned ress"

section \<open>Streamed content\<close>

text \<open>
  \<open>hasattr(obj, "a")\<close> is \<open>Missing\<close> when the object has no attribute \<open>a\<close> and
  \<open>Attr v\<close> when it has one, of value \<open>v\<close>.
\<close>

datatype 'a attr = Missing | Attr 'a

text \<open>
  An item of a streamed message: a function call (function name, arguments), a function
  result (function name, result) or anything else, here a piece of text. Arguments and
  results are held as the strings that an f-string renders them to.
\<close>

datatype item =
    FunctionCallContent string string
  | FunctionResultContent string string
  | StreamingTextContent string

text \<open>
  One message of the stream \<open>agent.invoke_stream(chat_history)\<close>. The loop reads three
  attributes: \<open>name\<close> and \<open>content\<close>, both behind \<open>hasattr\<close> and both possibly
  \<open>None\<close>, and \<open>items\<close>.
\<close>

record StreamingChatMessageContent =
  name :: "string option attr"
  items :: "item list"
  content :: "string option attr"

text \<open>Truth value of an optional string: \<open>None\<close> and \<open>""\<close> are false.\<close>

definition truthy :: "string option \<Rightarrow> bool" where
  "truthy v = (case v of None \<Rightarrow> False | Some s \<Rightarrow> s \<noteq> [])"

text \<open>
  \<open>str.isspace\<close> on one code point below 256: the controls 9 to 13 and 28 to 31, the
  space, NEL (133) and the no-break space (160). \<open>str.strip()\<close> removes leading and
  trailing white space.
\<close>

definition isspace :: "char \<Rightarrow> bool" where
  "isspace c =
     (let n = (of_char c :: nat)
      in (9 \<le> n \<and> n \<le> 13) \<or> (28 \<le> n \<and> n \<le> 32) \<or> n = 133 \<or> n = 160)"

definition strip :: "string \<Rightarrow> string" where
  "strip s = rev (dropWhile isspace (rev (dropWhile isspace s)))"

text \<open>
  \<open>isinstance(item, (FunctionCallContent, FunctionResultContent))\<close>
\<close>

fun is_function_item :: "item \<Rightarrow> bool" where
  "is_function_item (FunctionCallContent function_name arguments) = True"
| "is_function_item (FunctionResultContent function_name result) = True"
| "is_function_item (StreamingTextContent t) = False"

section \<open>Collecting one response\<close>

text \<open>The four variables that \<open>main\<close> initialises before it reads the stream.\<close>

record response =
  agent_name :: "string option"
  full_response :: string
  function_calls :: "string list"
  function_results :: "string \<rightharpoonup> string"

definition response_init :: response where
  "response_init =
     \<lparr>agent_name = None, full_response = [], function_calls = [], function_results = Map.empty\<rparr>"

text \<open>The body of \<open>for item in content.items\<close> (lines 182 to 189).\<close>

fun track_item :: "response \<Rightarrow> item \<Rightarrow> response" where
  "track_item v (FunctionCallContent function_name arguments) =
     v\<lparr>function_calls :=
          function_calls v @ [''Calling: '' @ function_name @ ''('' @ arguments @ '')'']\<rparr>"
| "track_item v (FunctionResultContent function_name result) =
     v\<lparr>function_calls := function_calls v @ [''Result: '' @ result],
       function_results := (function_results v)(function_name \<mapsto> result)\<rparr>"
| "track_item v (StreamingTextContent t) = v"

text \<open>
  The body of \<open>async for content in agent.invoke_stream(chat_history)\<close> (lines 177 to
  201): the agent name, then the items, then the text.
\<close>

definition collect :: "response \<Rightarrow> StreamingChatMessageContent \<Rightarrow> response" where
  "collect v c =
     (let v1 = (case name c of
                  Missing \<Rightarrow> v
                | Attr n \<Rightarrow> if \<not> truthy (agent_name v) then v\<lparr>agent_name := n\<rparr> else v);
          v2 = foldl track_item v1 (items c)
      in case content c of
           Attr (Some text) \<Rightarrow>
             if text \<noteq> [] \<and> strip text \<noteq> [] \<and> \<not> list_ex is_function_item (items c)
             then v2\<lparr>full_response := full_response v2 @ text\<rparr>
             else v2
         | _ \<Rightarrow> v2)"

text \<open>The whole stream of one turn, taken to be finite, read in arrival order.\<close>

definition aggregate :: "StreamingChatMessageContent list \<Rightarrow> response" where
  "aggregate cs = foldl collect response_init cs"

section \<open>The driver\<close>

datatype AuthorRole = SYSTEM | USER | ASSISTANT | TOOL

type_synonym ChatHistory = "(AuthorRole \<times> string) list"

definition add_user_message :: "string \<Rightarrow> ChatHistory \<Rightarrow> ChatHistory" where
  "add_user_message text h = h @ [(USER, text)]"

text \<open>
  \<open>agent.invoke_stream(chat_history)\<close> belongs to the SDK, not to this repository, so
  the agent is a parameter. A call receives the chat history object and may change it; it
  has a state of its own (the model, the plugins); the plugins it calls may print while the
  stream is read (line 86); and the stream may raise in place of its next message. The
  model of a call returns the exception raised, if any, the messages streamed (before the
  exception), the lines printed meanwhile, the chat history as the call leaves it, and the
  agent's next state.
\<close>

type_synonym ('b, 'e) agent =
  "'b \<Rightarrow> ChatHistory
     \<Rightarrow> 'e option \<times> StreamingChatMessageContent list \<times> string list \<times> ChatHistory \<times> 'b"

definition newline :: char where
  "newline = CHR 0x0A"

text \<open>What one turn prints before the stream (lines 166 to 168) and after it (204 to 214).\<close>

definition print_user :: "string \<Rightarrow> string list" where
  "print_user user_input =
     [newline # replicate 50 (CHR ''=''), ''User: '' @ user_input, replicate 50 (CHR ''='')]"

definition print_response :: "response \<Rightarrow> string list" where
  "print_response v =
     (if function_calls v \<noteq> []
      then [newline # ''Function Calls:'', replicate 20 (CHR ''-'')] @ function_calls v
             @ [replicate 20 (CHR ''-'')]
      else [])
     @ [newline # (if truthy (agent_name v) then the (agent_name v) else ''Assistant'') @ '':'',
        full_response v,
        newline # replicate 50 (CHR ''='')]"

text \<open>
  The body of \<open>for user_input in user_inputs\<close>. The state is the chat history, the
  agent's state and the lines on standard output so far. The lines that the agent's plugins
  print come between the echo of the user input and the printed response. An exception of
  the stream is not caught: it leaves the loop body with the response collected so far
  lost and nothing more printed.
\<close>

definition turn :: "('b, 'e) agent \<Rightarrow> ChatHistory \<times> 'b \<times> string list \<Rightarrow> string
    \<Rightarrow> 'e option \<times> ChatHistory \<times> 'b \<times> string list" where
  "turn agent st user_input =
     (case st of (chat_history, b, out) \<Rightarrow>
        (case agent b (add_user_message user_input chat_history) of
           (exc, contents, printed, chat_history', b') \<Rightarrow>
             (case exc of
                Some e \<Rightarrow> (Some e, chat_history', b', out @ print_user user_input @ printed)
              | None \<Rightarrow>
                  (None, chat_history', b',
                   out @ print_user user_input @ printed @ print_response (aggregate contents)))))"

text \<open>
  The loop over the user inputs: an exception of one turn ends \<open>main\<close>, the inputs that
  remain are not processed.
\<close>

fun turns :: "('b, 'e) agent \<Rightarrow> string list \<Rightarrow> ChatHistory \<times> 'b \<times> string list
    \<Rightarrow> 'e option \<times> ChatHistory \<times> 'b \<times> string list" where
  "turns agent [] st = (None, st)"
| "turns agent (user_input # inputs) st =
     (case turn agent st user_input of
        (Some e, st') \<Rightarrow> (Some e, st')
      | (None, st') \<Rightarrow> turns agent inputs st')"

definition user_inputs :: "string list" where
  "user_inputs =
     [''Plan me a day trip.'',
      ''I don't like that destination. Plan me another vacation.'',
      ''I want to book a flight to the destination you suggested, on the next Friday.'',
      ''Actually, I am busy then. Book me a flight to the destination you suggested, on the next Saturday.'']"

text \<open>\<open>main\<close>: a new, empty chat history, then one turn for each user input.\<close>

definition main :: "('b, 'e) agent \<Rightarrow> 'b \<Rightarrow> 'e option \<times> ChatHistory \<times> 'b \<times> string list" where
  "main agent b = turns agent user_inputs ([], b, [])"

text \<open>
  Modelled from the spec: the \<open>invoke_stream\<close> of the \<open>ChatCompletionAgent\<close> that
  line 137 creates, which is SDK code and not among the sources. After the specification
  (sections 4.5, 5 and 6) the Model Backend, \<open>streamTurn(conversation, capabilities)\<close>,
  yields the fragment stream of the turn for the conversation state it is given, and when
  the stream has been aggregated an assistant turn containing the full text is appended to
  the conversation state; a turn that fails appends nothing. The source leaves that append
  to the agent, which is handed the chat history object. The Model Backend is a parameter
  with a state of its own; it may print (through the plugins) and may raise.
\<close>

type_synonym ('b, 'e) backend =
  "'b \<Rightarrow> ChatHistory \<Rightarrow> 'e option \<times> StreamingChatMessageContent list \<times> string list \<times> 'b"

definition ChatCompletionAgent :: "('b, 'e) backend \<Rightarrow> ('b, 'e) agent" where
  "ChatCompletionAgent streamTurn b chat_history =
     (case streamTurn b chat_history of
        (exc, contents, printed, b') \<Rightarrow>
          (exc, contents, printed,
           (case exc of
              Some e \<Rightarrow> chat_history
            | None \<Rightarrow> chat_history @ [(ASSISTANT, full_response (aggregate contents))]),
           b'))"

text \<open>
  Messages for tests, as the agent named TravelAgent streams them: one that carries text
  only, and one that carries the given items and no text.
\<close>

definition text_message :: "string \<Rightarrow> StreamingChatMessageContent" where
  "text_message s =
     \<lparr>name = Attr (Some ''TravelAgent''), items = [StreamingTextContent s], content = Attr (Some s)\<rparr>"

definition items_message :: "item list \<Rightarrow> StreamingChatMessageContent" where
  "items_message its = \<lparr>name = Attr (Some ''TravelAgent''), items = its, content = Attr (Some [])\<rparr>"

text \<open>
  A Model Backend for tests: it streams one text message that echoes the latest turn of the
  conversation it is given, prints nothing, never raises, and records in its state every
  conversation it was invoked with.
\<close>

definition recording_backend :: "(ChatHistory list, error) backend" where
  "recording_backend seen h =
     (None,
      [text_message (''Reply to: '' @ (case h of [] \<Rightarrow> [] | t # ts \<Rightarrow> snd (last h)))],
      [], seen @ [h])"

section \<open>Notions of the specification\<close>

text \<open>
  The text of a message (nothing when the attribute is missing or \<open>None\<close>), the call
  requests (name, arguments) and the call results (name, value) of a stream, in arrival
  order.
\<close>

definition text_delta :: "StreamingChatMessageContent \<Rightarrow> string" where
  "text_delta c = (case content c of Attr (Some text) \<Rightarrow> text | _ \<Rightarrow> [])"

fun call_request :: "item \<Rightarrow> (string \<times> string) list" where
  "call_request (FunctionCallContent function_name arguments) = [(function_name, arguments)]"
| "call_request (FunctionResultContent function_name result) = []"
| "call_request (StreamingTextContent t) = []"

fun call_result :: "item \<Rightarrow> (string \<times> string) list" where
  "call_result (FunctionCallContent function_name arguments) = []"
| "call_result (FunctionResultContent function_name result) = [(function_name, result)]"
| "call_result (StreamingTextContent t) = []"

definition call_requests :: "StreamingChatMessageContent list \<Rightarrow> (string \<times> string) list" where
  "call_requests cs = concat (map call_request (concat (map items cs)))"

definition call_results :: "StreamingChatMessageContent list \<Rightarrow> (string \<times> string) list" where
  "call_results cs = concat (map call_result (concat (map items cs)))"

text \<open>
  The log lines that the specification gives for an item: \<open>Calling: <name>(<arguments>)\<close>
  for a call request, \<open>Result: <value>\<close> for a call result, none for anything else.
\<close>

definition calling_line :: "string \<times> string \<Rightarrow> string" where
  "calling_line p = ''Calling: '' @ fst p @ ''('' @ snd p @ '')''"

fun log_lines :: "item \<Rightarrow> string list" where
  "log_lines (FunctionCallContent function_name arguments) = [calling_line (function_name, arguments)]"
| "log_lines (FunctionResultContent function_name result) = [''Result: '' @ result]"
| "log_lines (StreamingTextContent t) = []"

text \<open>
  A line of the form \<open>Calling: <name>(<arguments>)\<close>: it starts with "Calling: ", ends
  with ")" and has a "(" in between.
\<close>

definition is_calling_line :: "string \<Rightarrow> bool" where
  "is_calling_line l =
     (take 9 l = ''Calling: '' \<and> drop 9 l \<noteq> [] \<and> last l = CHR '')''
      \<and> CHR ''('' \<in> set (butlast (drop 9 l)))"

text \<open>
  A message carries an identifying name when it has the attribute \<open>name\<close> and the value
  is a non-empty string: the values that the loop's test \<open>not agent_name\<close> tells from an
  unset name.
\<close>

definition identifying_name :: "StreamingChatMessageContent \<Rightarrow> bool" where
  "identifying_name c = (case name c of Missing \<Rightarrow> False | Attr n \<Rightarrow> truthy n)"

section \<open>Facts about the destination plugin\<close>

lemma choice_mem: "choice r xs = Inr v \<Longrightarrow> v \<in> set xs"
  by (auto simp: choice_def split: if_splits)

lemma choice_empty: "choice r [] = Inl IndexError"
  by (simp add: choice_def)

lemma choice_nonempty: "xs \<noteq> [] \<Longrightarrow> choice r xs = Inr (xs ! (r mod length xs))"
  by (simp add: choice_def)

text \<open>Nothing is available exactly when there is no destination, or one that was the latest.\<close>

lemma available_empty_iff:
  "available_destinations self = [] \<longleftrightarrow>
     destinations self = [] \<or> (\<exists>d. destinations self = [d] \<and> latest_destination self = Some d)"
proof (cases "destinations self")
  case Nil
  then show ?thesis
    by (simp add: available_destinations_def split: option.split)
next
  case (Cons x xs)
  then show ?thesis
    by (auto simp: available_destinations_def split: option.split)
qed

lemma available_subset: "set (available_destinations self) \<subseteq> set (destinations self)"
  using set_remove1_subset [of _ "destinations self"]
  by (auto simp: available_destinations_def split: option.split)

lemma latest_not_available:
  assumes "distinct (destinations self)"
  shows "latest_destination self = Some d \<Longrightarrow> d \<notin> set (available_destinations self)"
  using assms by (auto simp: available_destinations_def)

lemma available_nonempty_of_two:
  assumes "2 \<le> length (destinations self)"
  shows "available_destinations self \<noteq> []"
proof
  assume "available_destinations self = []"
  then have "length (destinations self) \<le> 1"
    by (auto simp: available_empty_iff)
  with assms show False by simp
qed

lemma get_random_destination_Inr:
  assumes "get_random_destination r self = (Inr v, out, self')"
  shows "v \<in> set (available_destinations self)"
    and "self' = self\<lparr>latest_destination := Some v\<rparr>"
    and "out = [''Selected destination: '' @ v]"
  using assms
  by (auto simp: get_random_destination_def split: sum.splits dest: choice_mem)

lemma get_random_destination_Inl:
  assumes "get_random_destination r self = (Inl e, out, self')"
  shows "e = IndexError" and "available_destinations self = []" and "self' = self" and "out = []"
  using assms
  by (auto simp: get_random_destination_def choice_def split: sum.splits if_splits)

lemma get_random_destination_empty:
  "available_destinations self = [] \<Longrightarrow> get_random_destination r self = (Inl IndexError, [], self)"
  by (simp add: get_random_destination_def choice_empty)

lemma get_random_destination_nonempty:
  assumes "available_destinations self \<noteq> []"
  shows "\<exists>v. get_random_destination r self =
           (Inr v, [''Selected destination: '' @ v], self\<lparr>latest_destination := Some v\<rparr>)
         \<and> v \<in> set (available_destinations self)"
  using assms by (simp add: get_random_destination_def choice_nonempty)

lemma get_random_destination_destinations:
  "destinations (snd (snd (get_random_destination r self))) = destinations self"
  by (simp add: get_random_destination_def split: sum.split)

lemma get_random_destination_frame:
  "snd (snd (get_random_destination r self)) =
     self\<lparr>latest_destination := latest_destination (snd (snd (get_random_destination r self)))\<rparr>"
  by (simp add: get_random_destination_def split: sum.split)

lemma invocations_destinations:
  "destinations (snd (invocations rs self)) = destinations self"
proof (induction rs arbitrary: self)
  case Nil
  show ?case by simp
next
  case (Cons r rs)
  obtain res out self' where g: "get_random_destination r self = (res, out, self')"
    by (cases "get_random_destination r self") auto
  have "destinations self' = destinations self"
    using get_random_destination_destinations [of r self] g by simp
  with Cons.IH [of self'] g show ?case
    by (simp add: case_prod_beta)
qed

text \<open>
  With at least two destinations and no repeated entry every call returns, each value is a
  destination, and it differs from the latest destination recorded before the call.
\<close>

lemma invocations_differ:
  assumes "distinct (destinations self)" and "2 \<le> length (destinations self)"
  shows "\<exists>vs. fst (invocations rs self) = map Inr vs \<and> length vs = length rs
           \<and> distinct_adj vs \<and> set vs \<subseteq> set (destinations self)
           \<and> (vs \<noteq> [] \<longrightarrow> latest_destination self \<noteq> Some (hd vs))"
  using assms
proof (induction rs arbitrary: self)
  case Nil
  show ?case by simp
next
  case (Cons r rs)
  let ?s = "\<lambda>v. self\<lparr>latest_destination := Some v\<rparr>"
  from Cons.prems(2) have "available_destinations self \<noteq> []"
    by (rule available_nonempty_of_two)
  then obtain v where g: "get_random_destination r self =
      (Inr v, [''Selected destination: '' @ v], ?s v)"
    and v: "v \<in> set (available_destinations self)"
    using get_random_destination_nonempty [of self r] by blast
  have fresh: "latest_destination self \<noteq> Some v"
    using latest_not_available [OF Cons.prems(1)] v by blast
  from Cons.prems have "distinct (destinations (?s v))" and "2 \<le> length (destinations (?s v))"
    by simp_all
  from Cons.IH [OF this] obtain vs where
    vs: "fst (invocations rs (?s v)) = map Inr vs" "length vs = length rs" "distinct_adj vs"
      "set vs \<subseteq> set (destinations self)"
      "vs \<noteq> [] \<longrightarrow> Some v \<noteq> Some (hd vs)"
    by auto
  have "fst (invocations (r # rs) self) = map Inr (v # vs)"
    using g vs(1) by (simp add: case_prod_beta)
  moreover have "distinct_adj (v # vs)"
    using vs(3,5) by (cases vs) auto
  moreover have "v \<in> set (destinations self)"
    using v available_subset by blast
  ultimately show ?case
    using vs(2,4) fresh by (intro exI [of _ "v # vs"]) simp
qed

lemma get_random_destination_latest:
  assumes "get_random_destination r self = (Inr v, out, self')"
  shows "latest_destination self' = Some v" and "v \<in> set (destinations self')"
    and "latest_is_member self'"
proof -
  from get_random_destination_Inr [OF assms]
  have v: "v \<in> set (available_destinations self)" and s: "self' = self\<lparr>latest_destination := Some v\<rparr>"
    by simp_all
  from s show "latest_destination self' = Some v" by simp
  from v available_subset have "v \<in> set (destinations self)" by blast
  with s show "v \<in> set (destinations self')" by simp
  with \<open>latest_destination self' = Some v\<close> show "latest_is_member self'"
    by (simp add: latest_is_member_def)
qed

lemma get_random_destination_preserves:
  assumes "latest_is_member self"
  shows "latest_is_member (snd (snd (get_random_destination r self)))"
proof (cases "get_random_destination r self")
  case (fields res out self')
  show ?thesis
  proof (cases res)
    case (Inl e)
    with fields get_random_destination_Inl(3) [of r self e out self'] assms
    show ?thesis by simp
  next
    case (Inr v)
    with fields get_random_destination_latest(3) [of r self v out self']
    show ?thesis by simp
  qed
qed

text \<open>A sequence of calls none of which returned leaves the plugin as it was.\<close>

lemma invocations_none_returned:
  "returned (fst (invocations rs self)) = [] \<Longrightarrow> snd (invocations rs self) = self"
proof (induction rs arbitrary: self)
  case Nil
  show ?case by simp
next
  case (Cons r rs)
  obtain res out self' where g: "get_random_destination r self = (res, out, self')"
    by (cases "get_random_destination r self") auto
  from Cons.prems g obtain e where e: "res = Inl e"
    and rest: "returned (fst (invocations rs self')) = []"
    by (cases res) (simp_all add: case_prod_beta)
  from g e have "self' = self"
    using get_random_destination_Inl(3) by blast
  with Cons.IH [OF rest] g show ?case
    by (simp add: case_prod_beta)
qed

lemma invocations_latest:
  "returned (fst (invocations rs self)) \<noteq> [] \<Longrightarrow>
     latest_destination (snd (invocations rs self)) = Some (last (returned (fst (invocations rs self))))
     \<and> latest_is_member (snd (invocations rs self))"
proof (induction rs arbitrary: self)
  case Nil
  then show ?case by simp
next
  case (Cons r rs)
  obtain res out self' where g: "get_random_destination r self = (res, out, self')"
    by (cases "get_random_destination r self") auto
  show ?case
  proof (cases "returned (fst (invocations rs self')) = []")
    case False
    from Cons.IH [OF False] g False show ?thesis
      by (cases res) (simp_all add: case_prod_beta)
  next
    case True
    then have same: "snd (invocations rs self') = self'"
      by (rule invocations_none_returned)
    from Cons.prems g True obtain v where v: "res = Inr v"
      by (cases res) (simp_all add: case_prod_beta)
    from g v have "latest_destination self' = Some v" and "latest_is_member self'"
      using get_random_destination_latest by blast+
    with g v True same show ?thesis
      by (simp add: case_prod_beta)
  qed
qed

section \<open>The flight booking capability\<close>

text \<open>
  Claim C7. \<open>book_flight\<close> is a function of its two arguments alone: for every date and
  location (non-empty or not) it returns the string
  "Flight booked to {location} on {date}." with both arguments inserted verbatim, and the
  call with "2024-05-10" and "Paris, France" returns exactly
  "Flight booked to Paris, France on 2024-05-10.".
\<close>

theorem book_flight_template:
  "book_flight date location = ''Flight booked to '' @ location @ '' on '' @ date @ ''.''
   \<and> book_flight ''2024-05-10'' ''Paris, France'' = ''Flight booked to Paris, France on 2024-05-10.''"
  by (simp add: book_flight_def)

section \<open>The destination capability\<close>

text \<open>
  Claim C2 as stated fails. With the single destination "Paris, France" the first call
  returns it and the second call finds nothing available; it fails, but with the
  \<open>IndexError\<close> of \<open>random.choice\<close>, not with \<open>NoAvailableDestinationError\<close>.
\<close>

theorem empty_available_error_counterexample:
  "fst (invocations [0, 0] \<lparr>destinations = [''Paris, France''], latest_destination = None\<rparr>)
     = [Inr ''Paris, France'', Inl IndexError]
   \<and> available_destinations
       \<lparr>destinations = [''Paris, France''], latest_destination = Some ''Paris, France''\<rparr> = []
   \<and> fst (get_random_destination 0
       \<lparr>destinations = [''Paris, France''], latest_destination = Some ''Paris, France''\<rparr>)
     \<noteq> Inl NoAvailableDestinationError"
  by (simp add: get_random_destination_def choice_def available_destinations_def)

text \<open>
  Claim C2 as amended. Whenever nothing is available (the destinations without the latest
  one are empty), the call raises \<open>IndexError\<close>, prints nothing and leaves the plugin
  unchanged, and the list of destinations then has at most one element. In particular, on
  a plugin with the single destination \<open>d\<close> whose latest destination is not \<open>d\<close>, the
  first of two calls returns \<open>d\<close> and the second raises \<open>IndexError\<close>, whatever is
  drawn.
\<close>

theorem empty_available_raises_IndexError:
  "(available_destinations self = [] \<longrightarrow>
      get_random_destination r self = (Inl IndexError, [], self) \<and> length (destinations self) \<le> 1)
   \<and> (latest_destination self \<noteq> Some d \<and> destinations self = [d] \<longrightarrow>
        invocations [r1, r2] self =
          ([Inr d, Inl IndexError], self\<lparr>latest_destination := Some d\<rparr>))"
proof (intro conjI impI)
  assume e: "available_destinations self = []"
  then show "get_random_destination r self = (Inl IndexError, [], self)"
    by (rule get_random_destination_empty)
  from e show "length (destinations self) \<le> 1"
    by (auto simp: available_empty_iff)
next
  assume a: "latest_destination self \<noteq> Some d \<and> destinations self = [d]"
  then have av: "available_destinations self = [d]"
    by (auto simp: available_destinations_def split: option.split)
  have first: "get_random_destination r1 self =
      (Inr d, [''Selected destination: '' @ d], self\<lparr>latest_destination := Some d\<rparr>)"
    by (simp add: get_random_destination_def choice_def av)
  have "available_destinations (self\<lparr>latest_destination := Some d\<rparr>) = []"
    using a by (simp add: available_destinations_def)
  then have second: "get_random_destination r2 (self\<lparr>latest_destination := Some d\<rparr>) =
      (Inl IndexError, [], self\<lparr>latest_destination := Some d\<rparr>)"
    by (rule get_random_destination_empty)
  show "invocations [r1, r2] self = ([Inr d, Inl IndexError], self\<lparr>latest_destination := Some d\<rparr>)"
    by (simp add: first second)
qed

theorem empty_available_raises_IndexError_witness:
  "available_destinations
     \<lparr>destinations = [''Paris, France''], latest_destination = Some ''Paris, France''\<rparr> = []
   \<and> get_random_destination 3
       \<lparr>destinations = [''Paris, France''], latest_destination = Some ''Paris, France''\<rparr>
     = (Inl IndexError, [],
        \<lparr>destinations = [''Paris, France''], latest_destination = Some ''Paris, France''\<rparr>)
   \<and> invocations [4, 7] \<lparr>destinations = [''Paris, France''], latest_destination = None\<rparr>
     = ([Inr ''Paris, France'', Inl IndexError],
        \<lparr>destinations = [''Paris, France''], latest_destination = Some ''Paris, France''\<rparr>)"
  using empty_available_raises_IndexError
      [of "\<lparr>destinations = [''Paris, France''], latest_destination = Some ''Paris, France''\<rparr>" 3]
    empty_available_raises_IndexError
      [of "\<lparr>destinations = [''Paris, France''], latest_destination = None\<rparr>" _
        "''Paris, France''" 4 7]
  by (simp add: available_destinations_def)

text \<open>
  Claim C3. The destinations of the plugin are a set of candidates, held in a list: at
  least two entries, none of them repeated, as in the list of the constructor. On such a
  plugin, whatever its latest destination, every sequence of successive calls returns
  normally each time, whatever is drawn, and no two consecutive returned values are equal.
\<close>

theorem consecutive_destinations_differ:
  assumes "distinct (destinations self)" and "2 \<le> length (destinations self)"
  shows "\<exists>vs. fst (invocations rs self) = map Inr vs \<and> length vs = length rs \<and> distinct_adj vs"
  using invocations_differ [OF assms, of rs] by blast

theorem consecutive_destinations_differ_witness:
  "distinct (destinations DestinationPlugin_init) \<and> 2 \<le> length (destinations DestinationPlugin_init)
   \<and> (\<exists>vs. fst (invocations [0, 9, 9, 13] DestinationPlugin_init) = map Inr vs
          \<and> length vs = length [0::nat, 9, 9, 13] \<and> distinct_adj vs)"
proof -
  have d: "distinct (destinations DestinationPlugin_init)"
    by (simp add: DestinationPlugin_init_def)
  have l: "2 \<le> length (destinations DestinationPlugin_init)"
    by (simp add: DestinationPlugin_init_def)
  from d l consecutive_destinations_differ [OF d l, of "[0, 9, 9, 13]"] show ?thesis by blast
qed

text \<open>
  Claim C9. A call of \<open>get_random_destination\<close>, whether it returns or raises, leaves
  the list of destinations as it was, also when the latest destination was taken out of
  the copy; the plugin afterwards differs from the plugin before in the field
  \<open>latest_destination\<close> at most. So the list is the same after any sequence of calls.
\<close>

theorem get_random_destination_keeps_destinations:
  assumes "get_random_destination r self = (res, out, self')"
  shows "destinations self' = destinations self
         \<and> self' = self\<lparr>latest_destination := latest_destination self'\<rparr>
         \<and> destinations (snd (invocations rs self)) = destinations self"
  using assms get_random_destination_destinations [of r self]
    get_random_destination_frame [of r self] invocations_destinations [of rs self]
  by simp

theorem get_random_destination_keeps_destinations_witness:
  "get_random_destination 1 (DestinationPlugin_init\<lparr>latest_destination := Some ''Paris, France''\<rparr>)
     = (Inr ''Berlin, Germany'', [''Selected destination: Berlin, Germany''],
        DestinationPlugin_init\<lparr>latest_destination := Some ''Berlin, Germany''\<rparr>)
   \<and> destinations (DestinationPlugin_init\<lparr>latest_destination := Some ''Berlin, Germany''\<rparr>)
     = destinations (DestinationPlugin_init\<lparr>latest_destination := Some ''Paris, France''\<rparr>)
   \<and> available_destinations (DestinationPlugin_init\<lparr>latest_destination := Some ''Paris, France''\<rparr>)
     \<noteq> destinations DestinationPlugin_init"
proof -
  let ?s = "DestinationPlugin_init\<lparr>latest_destination := Some ''Paris, France''\<rparr>"
  have g: "get_random_destination 1 ?s =
      (Inr ''Berlin, Germany'', [''Selected destination: Berlin, Germany''],
       DestinationPlugin_init\<lparr>latest_destination := Some ''Berlin, Germany''\<rparr>)"
    by (simp add: get_random_destination_def choice_def available_destinations_def
        DestinationPlugin_init_def)
  have a: "available_destinations ?s \<noteq> destinations DestinationPlugin_init"
    by (simp add: available_destinations_def DestinationPlugin_init_def)
  from get_random_destination_keeps_destinations [OF g]
  have "destinations (DestinationPlugin_init\<lparr>latest_destination := Some ''Berlin, Germany''\<rparr>)
      = destinations ?s"
    by blast
  with g a show ?thesis by blast
qed

text \<open>
  Claim C10. When a call of \<open>get_random_destination\<close> returns the value \<open>v\<close>, the
  plugin's latest destination is \<open>v\<close> afterwards and \<open>v\<close> is one of the destinations.
  Once the latest destination is one of the destinations, every further call, returning
  or raising, keeps it so. After a sequence of calls of which at least one returned, the
  latest destination is the value returned last, and it is one of the destinations.
\<close>

theorem latest_destination_is_returned_member:
  "(get_random_destination r self = (Inr v, out, self') \<longrightarrow>
      latest_destination self' = Some v \<and> v \<in> set (destinations self'))
   \<and> (latest_is_member self \<longrightarrow> latest_is_member (snd (snd (get_random_destination r self))))
   \<and> (returned (fst (invocations rs self)) \<noteq> [] \<longrightarrow>
        latest_destination (snd (invocations rs self)) = Some (last (returned (fst (invocations rs self))))
        \<and> latest_is_member (snd (invocations rs self)))"
  using get_random_destination_latest(1,2) [of r self v out self']
    get_random_destination_preserves [of self r] invocations_latest [of rs self]
  by blast

theorem latest_destination_is_returned_member_witness:
  "latest_destination (snd (snd (get_random_destination 4 DestinationPlugin_init)))
     = Some ''Sydney, Australia''
   \<and> ''Sydney, Australia'' \<in> set (destinations DestinationPlugin_init)
   \<and> \<not> latest_is_member DestinationPlugin_init
   \<and> latest_is_member (snd (snd (get_random_destination 4 DestinationPlugin_init)))
   \<and> latest_is_member (snd (snd (get_random_destination 2
        (snd (snd (get_random_destination 4 DestinationPlugin_init))))))"
proof -
  let ?s = "DestinationPlugin_init\<lparr>latest_destination := Some ''Sydney, Australia''\<rparr>"
  have g: "get_random_destination 4 DestinationPlugin_init =
      (Inr ''Sydney, Australia'', [''Selected destination: Sydney, Australia''], ?s)"
    by (simp add: get_random_destination_def choice_def available_destinations_def
        DestinationPlugin_init_def)
  have n: "\<not> latest_is_member DestinationPlugin_init"
    by (simp add: latest_is_member_def DestinationPlugin_init_def)
  have m: "latest_is_member ?s"
    by (simp add: latest_is_member_def DestinationPlugin_init_def)
  from latest_destination_is_returned_member
      [of 4 DestinationPlugin_init "''Sydney, Australia''" _ ?s] g
  have 1: "latest_destination ?s = Some ''Sydney, Australia''
      \<and> ''Sydney, Australia'' \<in> set (destinations ?s)"
    by blast
  from latest_destination_is_returned_member [where r = 2 and self = ?s] m
  have 2: "latest_is_member (snd (snd (get_random_destination 2 ?s)))"
    by blast
  from 1 2 n m g show ?thesis by simp
qed

section \<open>Facts about collecting a response\<close>

lemma strip_Nil: "strip [] = []"
  by (simp add: strip_def)

lemma dropWhile_all_iff: "(\<forall>x\<in>set (dropWhile P xs). P x) \<longleftrightarrow> dropWhile P xs = []"
proof
  assume a: "\<forall>x\<in>set (dropWhile P xs). P x"
  show "dropWhile P xs = []"
  proof (rule ccontr)
    assume n: "dropWhile P xs \<noteq> []"
    then have "\<not> P (hd (dropWhile P xs))" by (rule hd_dropWhile)
    moreover from n have "hd (dropWhile P xs) \<in> set (dropWhile P xs)" by simp
    ultimately show False using a by blast
  qed
next
  assume e: "dropWhile P xs = []"
  show "\<forall>x\<in>set (dropWhile P xs). P x" unfolding e by simp
qed

text \<open>Stripping leaves nothing exactly when every character is white space.\<close>

lemma strip_empty_iff: "strip s = [] \<longleftrightarrow> (\<forall>c\<in>set s. isspace c)"
proof -
  have "strip s = [] \<longleftrightarrow> (\<forall>x\<in>set (dropWhile isspace s). isspace x)"
    by (simp add: strip_def dropWhile_eq_Nil_conv)
  also have "\<dots> \<longleftrightarrow> dropWhile isspace s = []"
    by (rule dropWhile_all_iff)
  also have "\<dots> \<longleftrightarrow> (\<forall>c\<in>set s. isspace c)"
    by (simp add: dropWhile_eq_Nil_conv)
  finally show ?thesis .
qed

lemma is_calling_line_calling_line: "is_calling_line (calling_line p)"
  by (simp add: is_calling_line_def calling_line_def butlast_append)

lemma not_is_calling_line_result: "\<not> is_calling_line (''Result: '' @ r)"
  by (simp add: is_calling_line_def)

text \<open>The lines that \<open>is_calling_line\<close> accepts are the lines of some call request.\<close>

lemma is_calling_line_iff:
  "is_calling_line l \<longleftrightarrow> (\<exists>n a. l = calling_line (n, a))"
proof
  assume l: "is_calling_line l"
  then have p: "take 9 l = ''Calling: ''" and ne: "drop 9 l \<noteq> []" and e: "last l = CHR '')''"
    and m: "CHR ''('' \<in> set (butlast (drop 9 l))"
    by (simp_all add: is_calling_line_def)
  from m obtain n a where na: "butlast (drop 9 l) = n @ CHR ''('' # a"
    by (auto simp: in_set_conv_decomp)
  from ne have "last (drop 9 l) = last l"
    by (simp add: last_drop)
  with e have "last (drop 9 l) = CHR '')''" by simp
  with append_butlast_last_id [OF ne] na have d: "drop 9 l = (n @ CHR ''('' # a) @ '')''"
    by simp
  have "l = take 9 l @ drop 9 l" by simp
  with p d have "l = ''Calling: '' @ n @ ''('' @ a @ '')''"
    by simp
  then show "\<exists>n a. l = calling_line (n, a)"
    by (auto simp: calling_line_def)
next
  assume "\<exists>n a. l = calling_line (n, a)"
  then show "is_calling_line l"
    by (auto simp: is_calling_line_calling_line)
qed

lemma call_result_rev: "rev (call_result it) = call_result it"
  by (cases it) simp_all

lemma filter_calling_log_lines:
  "filter is_calling_line (concat (map log_lines its)) = map calling_line (concat (map call_request its))"
proof (induction its)
  case Nil
  show ?case by simp
next
  case (Cons it its)
  show ?case
  proof (cases it)
    case (FunctionCallContent n a)
    with Cons.IH show ?thesis by (simp add: is_calling_line_calling_line)
  next
    case (FunctionResultContent n r)
    with Cons.IH not_is_calling_line_result [of r] show ?thesis by simp
  next
    case (StreamingTextContent t)
    with Cons.IH show ?thesis by simp
  qed
qed

lemma log_lines_none:
  "\<not> list_ex is_function_item its \<Longrightarrow> concat (map log_lines its) = []"
proof (induction its)
  case Nil
  show ?case by simp
next
  case (Cons it its)
  then show ?case by (cases it) simp_all
qed

lemma call_request_logged:
  assumes "p \<in> set (concat (map call_request its))"
  shows "calling_line p \<in> set (concat (map log_lines its))"
proof -
  from assms obtain it where it: "it \<in> set its" and p: "p \<in> set (call_request it)"
    by auto
  from p have "calling_line p \<in> set (log_lines it)"
    by (cases it) simp_all
  with it show ?thesis by auto
qed

lemma no_function_items_iff:
  "concat (map call_request its) = [] \<and> concat (map call_result its) = []
     \<longleftrightarrow> \<not> list_ex is_function_item its"
proof (induction its)
  case Nil
  show ?case by simp
next
  case (Cons it its)
  then show ?case by (cases it) auto
qed

lemma no_calls_iff:
  "call_requests cs = [] \<and> call_results cs = []
     \<longleftrightarrow> (\<forall>c\<in>set cs. \<not> list_ex is_function_item (items c))"
  using no_function_items_iff [of "concat (map items cs)"]
  by (auto simp: call_requests_def call_results_def list_ex_iff)

text \<open>The later of two entries for one key is the one that a dictionary keeps.\<close>

lemma map_of_rev_last:
  "n \<in> fst ` set xs \<Longrightarrow> map_of (rev xs) n = Some (snd (last (filter (\<lambda>p. fst p = n) xs)))"
proof (induction xs rule: rev_induct)
  case Nil
  then show ?case by simp
next
  case (snoc x xs)
  show ?case
  proof (cases "fst x = n")
    case True
    then show ?thesis by (cases x) simp
  next
    case False
    with snoc.prems have "n \<in> fst ` set xs" by auto
    with snoc.IH False show ?thesis by (cases x) simp
  qed
qed

subsection \<open>One item, all items of a message\<close>

lemma track_item_agent_name: "agent_name (track_item v it) = agent_name v"
  by (cases it) simp_all

lemma track_item_full_response: "full_response (track_item v it) = full_response v"
  by (cases it) simp_all

lemma track_item_function_calls: "function_calls (track_item v it) = function_calls v @ log_lines it"
  by (cases it) (simp_all add: calling_line_def)

lemma track_item_function_results:
  "function_results (track_item v it) = function_results v ++ map_of (call_result it)"
  by (cases it) simp_all

lemma foldl_track_item_agent_name: "agent_name (foldl track_item v its) = agent_name v"
  by (induction its arbitrary: v) (simp_all add: track_item_agent_name)

lemma foldl_track_item_full_response: "full_response (foldl track_item v its) = full_response v"
  by (induction its arbitrary: v) (simp_all add: track_item_full_response)

lemma foldl_track_item_function_calls:
  "function_calls (foldl track_item v its) = function_calls v @ concat (map log_lines its)"
  by (induction its arbitrary: v) (simp_all add: track_item_function_calls)

lemma foldl_track_item_function_results:
  "function_results (foldl track_item v its) =
     function_results v ++ map_of (rev (concat (map call_result its)))"
  by (induction its arbitrary: v)
    (simp_all add: track_item_function_results map_of_append call_result_rev)

subsection \<open>One message, the whole stream\<close>

lemma collect_agent_name:
  "agent_name (collect v c) =
     (case name c of
        Missing \<Rightarrow> agent_name v
      | Attr n \<Rightarrow> if \<not> truthy (agent_name v) then n else agent_name v)"
  by (simp add: collect_def Let_def foldl_track_item_agent_name
      split: attr.split option.split)

lemma collect_full_response:
  "full_response (collect v c) =
     full_response v @
       (if strip (text_delta c) \<noteq> [] \<and> \<not> list_ex is_function_item (items c)
        then text_delta c else [])"
  by (auto simp: collect_def Let_def text_delta_def foldl_track_item_full_response strip_Nil
      split: attr.split option.split)

lemma collect_function_calls:
  "function_calls (collect v c) = function_calls v @ concat (map log_lines (items c))"
  by (simp add: collect_def Let_def foldl_track_item_function_calls
      split: attr.split option.split)

lemma collect_function_results:
  "function_results (collect v c) =
     function_results v ++ map_of (rev (concat (map call_result (items c))))"
  by (simp add: collect_def Let_def foldl_track_item_function_results
      split: attr.split option.split)

lemma foldl_collect_full_response:
  "full_response (foldl collect v cs) =
     full_response v @
       concat (map text_delta
         (filter (\<lambda>c. strip (text_delta c) \<noteq> [] \<and> \<not> list_ex is_function_item (items c)) cs))"
  by (induction cs arbitrary: v) (simp_all add: collect_full_response)

lemma foldl_collect_function_calls:
  "function_calls (foldl collect v cs) =
     function_calls v @ concat (map log_lines (concat (map items cs)))"
  by (induction cs arbitrary: v) (simp_all add: collect_function_calls)

lemma foldl_collect_function_results:
  "function_results (foldl collect v cs) =
     function_results v ++ map_of (rev (concat (map call_result (concat (map items cs)))))"
  by (induction cs arbitrary: v) (simp_all add: collect_function_results map_of_append)

text \<open>
  The response text is the text of the messages that have a non-white-space character and
  no function item; the log holds the lines of all items; the results are the call results,
  a later one overwriting an earlier one of the same name.
\<close>

lemma aggregate_full_response:
  "full_response (aggregate cs) =
     concat (map text_delta
       (filter (\<lambda>c. strip (text_delta c) \<noteq> [] \<and> \<not> list_ex is_function_item (items c)) cs))"
  by (simp add: aggregate_def foldl_collect_full_response response_init_def)

lemma aggregate_function_calls:
  "function_calls (aggregate cs) = concat (map log_lines (concat (map items cs)))"
  by (simp add: aggregate_def foldl_collect_function_calls response_init_def)

lemma aggregate_function_results:
  "function_results (aggregate cs) = map_of (rev (call_results cs))"
  by (simp add: aggregate_def foldl_collect_function_results response_init_def call_results_def)

text \<open>
  What the code computes on a stream without call requests and call results: the text
  deltas that white space alone makes up are left out of the response text.
\<close>

lemma aggregate_without_calls:
  assumes "call_requests cs = []" and "call_results cs = []"
  shows "full_response (aggregate cs) =
           concat (map text_delta (filter (\<lambda>c. strip (text_delta c) \<noteq> []) cs))
         \<and> function_calls (aggregate cs) = []
         \<and> ((\<forall>c\<in>set cs. strip (text_delta c) = [] \<longrightarrow> text_delta c = []) \<longrightarrow>
              full_response (aggregate cs) = concat (map text_delta cs))"
proof -
  from assms have none: "\<forall>c\<in>set cs. \<not> list_ex is_function_item (items c)"
    using no_calls_iff by blast
  then have f: "filter (\<lambda>c. strip (text_delta c) \<noteq> [] \<and> \<not> list_ex is_function_item (items c)) cs
      = filter (\<lambda>c. strip (text_delta c) \<noteq> []) cs"
    by (intro filter_cong) auto
  have 1: "full_response (aggregate cs) =
      concat (map text_delta (filter (\<lambda>c. strip (text_delta c) \<noteq> []) cs))"
    by (simp add: aggregate_full_response f)
  from none have "\<not> list_ex is_function_item (concat (map items cs))"
    by (auto simp: list_ex_iff)
  then have 2: "function_calls (aggregate cs) = []"
    by (simp add: aggregate_function_calls log_lines_none)
  have 3: "concat (map text_delta (filter (\<lambda>c. strip (text_delta c) \<noteq> []) cs))
      = concat (map text_delta cs)"
    if "\<forall>c\<in>set cs. strip (text_delta c) = [] \<longrightarrow> text_delta c = []"
    using that by (induction cs) auto
  from 1 2 3 show ?thesis by simp
qed

subsection \<open>The agent name\<close>

lemma collect_keeps_name:
  "truthy (agent_name v) \<Longrightarrow> agent_name (collect v c) = agent_name v"
  by (simp add: collect_agent_name split: attr.split)

lemma foldl_collect_keeps_name:
  "truthy (agent_name v) \<Longrightarrow> agent_name (foldl collect v cs) = agent_name v"
  by (induction cs arbitrary: v) (simp_all add: collect_keeps_name)

lemma collect_stays_unset:
  "\<not> truthy (agent_name v) \<Longrightarrow> \<not> identifying_name c \<Longrightarrow> \<not> truthy (agent_name (collect v c))"
  by (cases "name c") (simp_all add: collect_agent_name identifying_name_def)

lemma foldl_collect_stays_unset:
  "\<not> truthy (agent_name v) \<Longrightarrow> \<forall>c\<in>set cs. \<not> identifying_name c
     \<Longrightarrow> \<not> truthy (agent_name (foldl collect v cs))"
  by (induction cs arbitrary: v) (simp_all add: collect_stays_unset)

lemma collect_sets_name:
  "\<not> truthy (agent_name v) \<Longrightarrow> identifying_name c
     \<Longrightarrow> name c = Attr (agent_name (collect v c)) \<and> truthy (agent_name (collect v c))"
  by (cases "name c") (simp_all add: collect_agent_name identifying_name_def)

section \<open>The collected response\<close>

text \<open>
  Claim C4. A stream without call requests and call results is to give, as the response
  text, the concatenation of all its text deltas in arrival order, and an empty call log.
  The comment at line 191 says as much: the content is added if the message is not
  function-related. The code does not do so on the stream below: its three messages carry
  no item of a call, the middle one carries a single space, and the test
  \<open>content.content.strip()\<close> skips it, so the response text is "Sure,Bali?" where the
  text deltas concatenate to "Sure, Bali?". The call log is empty, as claimed.
\<close>

theorem whitespace_delta_dropped:
  "call_requests [text_message ''Sure,'', text_message '' '', text_message ''Bali?''] = []
   \<and> call_results [text_message ''Sure,'', text_message '' '', text_message ''Bali?''] = []
   \<and> concat (map text_delta [text_message ''Sure,'', text_message '' '', text_message ''Bali?''])
       = ''Sure, Bali?''
   \<and> full_response (aggregate [text_message ''Sure,'', text_message '' '', text_message ''Bali?''])
       = ''Sure,Bali?''
   \<and> function_calls (aggregate [text_message ''Sure,'', text_message '' '', text_message ''Bali?''])
       = []"
  by (simp add: call_requests_def call_results_def text_message_def text_delta_def
      aggregate_def response_init_def collect_def truthy_def strip_def isspace_def)

text \<open>
  Claim C5. For every stream of one turn, the lines of the call log that have the form
  \<open>Calling: <name>(<arguments>)\<close> are, in this order, the lines of the call requests of
  the stream in arrival order; so there are as many of them as call requests.
\<close>

theorem calling_lines_match_call_requests:
  "filter is_calling_line (function_calls (aggregate cs)) = map calling_line (call_requests cs)
   \<and> length (filter is_calling_line (function_calls (aggregate cs))) = length (call_requests cs)"
  by (simp add: aggregate_function_calls filter_calling_log_lines call_requests_def)

text \<open>
  Claim C6. For every stream of one turn and every capability name \<open>n\<close>: the results
  hold an entry for \<open>n\<close> exactly when a call result of that name arrived; the entry is
  the value of the last such call result; and a call request of name \<open>n\<close> that no call
  result of that name matches puts its line into the call log and no entry into the
  results.
\<close>

theorem function_results_last_write_wins:
  "(n \<in> dom (function_results (aggregate cs)) \<longleftrightarrow> n \<in> fst ` set (call_results cs))
   \<and> (n \<in> fst ` set (call_results cs) \<longrightarrow>
        function_results (aggregate cs) n =
          Some (snd (last (filter (\<lambda>p. fst p = n) (call_results cs)))))
   \<and> ((n, a) \<in> set (call_requests cs) \<and> n \<notin> fst ` set (call_results cs) \<longrightarrow>
        calling_line (n, a) \<in> set (function_calls (aggregate cs))
        \<and> function_results (aggregate cs) n = None)"
proof (intro conjI impI)
  show d: "n \<in> dom (function_results (aggregate cs)) \<longleftrightarrow> n \<in> fst ` set (call_results cs)"
    by (simp add: aggregate_function_results dom_map_of_conv_image_fst)
  show "function_results (aggregate cs) n =
      Some (snd (last (filter (\<lambda>p. fst p = n) (call_results cs))))"
    if "n \<in> fst ` set (call_results cs)"
    using that by (simp add: aggregate_function_results map_of_rev_last)
  assume a: "(n, a) \<in> set (call_requests cs) \<and> n \<notin> fst ` set (call_results cs)"
  then have "(n, a) \<in> set (concat (map call_request (concat (map items cs))))"
    by (simp add: call_requests_def)
  then have "calling_line (n, a) \<in> set (concat (map log_lines (concat (map items cs))))"
    by (rule call_request_logged)
  then show "calling_line (n, a) \<in> set (function_calls (aggregate cs))"
    by (simp only: aggregate_function_calls)
  from a d show "function_results (aggregate cs) n = None"
    by blast
qed

theorem function_results_last_write_wins_witness:
  "function_results
     (aggregate [items_message [FunctionCallContent ''book_flight'' ''{}'',
        FunctionCallContent ''get_random_destination'' ''{}'',
        FunctionResultContent ''get_random_destination'' ''Bali, Indonesia''],
      items_message [FunctionResultContent ''get_random_destination'' ''Paris, France'']])
     ''get_random_destination'' = Some ''Paris, France''
   \<and> ''Calling: book_flight({})'' \<in> set (function_calls
     (aggregate [items_message [FunctionCallContent ''book_flight'' ''{}'',
        FunctionCallContent ''get_random_destination'' ''{}'',
        FunctionResultContent ''get_random_destination'' ''Bali, Indonesia''],
      items_message [FunctionResultContent ''get_random_destination'' ''Paris, France'']]))
   \<and> function_results
     (aggregate [items_message [FunctionCallContent ''book_flight'' ''{}'',
        FunctionCallContent ''get_random_destination'' ''{}'',
        FunctionResultContent ''get_random_destination'' ''Bali, Indonesia''],
      items_message [FunctionResultContent ''get_random_destination'' ''Paris, France'']])
     ''book_flight'' = None"
proof -
  let ?cs = "[items_message [FunctionCallContent ''book_flight'' ''{}'',
        FunctionCallContent ''get_random_destination'' ''{}'',
        FunctionResultContent ''get_random_destination'' ''Bali, Indonesia''],
      items_message [FunctionResultContent ''get_random_destination'' ''Paris, France'']]"
  have rq: "call_requests ?cs = [(''book_flight'', ''{}''), (''get_random_destination'', ''{}'')]"
    by (simp add: call_requests_def items_message_def)
  have rs: "call_results ?cs = [(''get_random_destination'', ''Bali, Indonesia''),
      (''get_random_destination'', ''Paris, France'')]"
    by (simp add: call_results_def items_message_def)
  have 1: "''get_random_destination'' \<in> fst ` set (call_results ?cs)"
    by (simp add: rs)
  have 2: "(''book_flight'', ''{}'') \<in> set (call_requests ?cs)
      \<and> ''book_flight'' \<notin> fst ` set (call_results ?cs)"
    by (simp add: rq rs)
  from function_results_last_write_wins [of "''get_random_destination''" ?cs] 1
  have "function_results (aggregate ?cs) ''get_random_destination'' =
      Some (snd (last (filter (\<lambda>p. fst p = ''get_random_destination'') (call_results ?cs))))"
    by blast
  then have a: "function_results (aggregate ?cs) ''get_random_destination'' = Some ''Paris, France''"
    by (simp add: rs)
  from function_results_last_write_wins [of "''book_flight''" ?cs "''{}''"] 2
  have "calling_line (''book_flight'', ''{}'') \<in> set (function_calls (aggregate ?cs))
      \<and> function_results (aggregate ?cs) ''book_flight'' = None"
    by blast
  then have b: "''Calling: book_flight({})'' \<in> set (function_calls (aggregate ?cs))
      \<and> function_results (aggregate ?cs) ''book_flight'' = None"
    by (simp add: calling_line_def)
  from a b show ?thesis by blast
qed

text \<open>
  Claim C8. Let \<open>c\<close> be the first message of the stream that carries an identifying
  name (the attribute \<open>name\<close> with a non-empty string), after the messages \<open>pre\<close>
  and before the messages \<open>post\<close>. Until \<open>c\<close> the agent name is unset (\<open>None\<close> or
  empty, which the loop does not tell apart); reading \<open>c\<close> sets it to the name of
  \<open>c\<close>; and whatever messages follow, with whatever names, it keeps that value.
\<close>

theorem agent_name_first_identifying_name:
  assumes "\<forall>c\<in>set pre. \<not> identifying_name c" and "identifying_name c"
  shows "\<not> truthy (agent_name (aggregate pre))
         \<and> name c = Attr (agent_name (aggregate (pre @ [c])))
         \<and> truthy (agent_name (aggregate (pre @ [c])))
         \<and> agent_name (aggregate (pre @ c # post)) = agent_name (aggregate (pre @ [c]))"
proof -
  have "\<not> truthy (agent_name response_init)"
    by (simp add: response_init_def truthy_def)
  with assms(1) have unset: "\<not> truthy (agent_name (aggregate pre))"
    unfolding aggregate_def by (rule foldl_collect_stays_unset [rotated])
  have step: "aggregate (pre @ [c]) = collect (aggregate pre) c"
    by (simp add: aggregate_def)
  from collect_sets_name [OF unset assms(2)]
  have set: "name c = Attr (agent_name (aggregate (pre @ [c])))"
    and t: "truthy (agent_name (aggregate (pre @ [c])))"
    by (simp_all add: step)
  have "aggregate (pre @ c # post) = foldl collect (aggregate (pre @ [c])) post"
    by (simp add: aggregate_def)
  with foldl_collect_keeps_name [OF t, of post]
  have "agent_name (aggregate (pre @ c # post)) = agent_name (aggregate (pre @ [c]))"
    by simp
  with unset set t show ?thesis by blast
qed

theorem agent_name_first_identifying_name_witness:
  "agent_name (aggregate
     [\<lparr>name = Missing, items = [], content = Attr (Some ''Sure'')\<rparr>,
      \<lparr>name = Attr (Some []), items = [], content = Missing\<rparr>,
      text_message ''how about'',
      \<lparr>name = Attr (Some ''OtherAgent''), items = [], content = Attr None\<rparr>,
      \<lparr>name = Attr None, items = [], content = Attr None\<rparr>]) = Some ''TravelAgent''"
proof -
  let ?pre = "[\<lparr>name = Missing, items = [], content = Attr (Some ''Sure'')\<rparr>,
      \<lparr>name = Attr (Some []), items = [], content = Missing\<rparr>]"
  let ?post = "[\<lparr>name = Attr (Some ''OtherAgent''), items = [], content = Attr None\<rparr>,
      \<lparr>name = Attr None, items = [], content = Attr None\<rparr>]"
  have 1: "\<forall>c\<in>set ?pre. \<not> identifying_name c"
    by (simp add: identifying_name_def truthy_def)
  have 2: "identifying_name (text_message ''how about'')"
    by (simp add: identifying_name_def truthy_def text_message_def)
  from agent_name_first_identifying_name [OF 1 2, of ?post]
  have "name (text_message ''how about'')
      = Attr (agent_name (aggregate (?pre @ [text_message ''how about''])))"
    and "agent_name (aggregate (?pre @ text_message ''how about'' # ?post))
      = agent_name (aggregate (?pre @ [text_message ''how about'']))"
    by blast+
  then show ?thesis
    by (simp add: text_message_def)
qed

section \<open>The conversation\<close>

text \<open>
  Whatever the agent, the chat history after a turn is the chat history that the agent
  leaves when invoked on the previous one followed by the user turn.
\<close>

lemma turn_history:
  "fst (snd (turn agent (h, b, out) u)) = fst (snd (snd (snd (agent b (h @ [(USER, u)])))))"
  by (simp add: turn_def add_user_message_def case_prod_beta split: option.split)

lemma turn_completed:
  assumes "streamTurn b (h @ [(USER, u)]) = (None, contents, printed, b')"
  shows "turn (ChatCompletionAgent streamTurn) (h, b, out) u =
           (None, h @ [(USER, u), (ASSISTANT, full_response (aggregate contents))], b',
            out @ print_user u @ printed @ print_response (aggregate contents))"
  using assms by (simp add: turn_def ChatCompletionAgent_def add_user_message_def)

text \<open>A turn whose stream raises ends the loop: the inputs that remain are left out.\<close>

lemma turns_aborted:
  assumes "turn agent st u = (Some e, st')"
  shows "turns agent (u # us) st = (Some e, st')"
  using assms by simp

text \<open>
  Claim C1. For a user input \<open>u\<close> whose turn completes (the stream of the Model Backend
  ends without an exception), the chat history after the turn is the one before it
  followed by the user turn \<open>u\<close> and an assistant turn holding the full response text of
  that turn; the inputs that remain are processed from this chat history; and so the
  invocation for the next input \<open>u'\<close> is given a conversation that holds the reply: the
  outcome of the two turns is determined by the Model Backend's stream for the chat history
  with the reply, followed by the user turn \<open>u'\<close>.
\<close>

theorem assistant_turn_appended:
  assumes "streamTurn b (h @ [(USER, u)]) = (None, contents, printed, b')"
  shows "turn (ChatCompletionAgent streamTurn) (h, b, out) u =
           (None, h @ [(USER, u), (ASSISTANT, full_response (aggregate contents))], b',
            out @ print_user u @ printed @ print_response (aggregate contents))
         \<and> turns (ChatCompletionAgent streamTurn) (u # us) (h, b, out) =
             turns (ChatCompletionAgent streamTurn) us
               (h @ [(USER, u), (ASSISTANT, full_response (aggregate contents))], b',
                out @ print_user u @ printed @ print_response (aggregate contents))
         \<and> (streamTurn b'
               (h @ [(USER, u), (ASSISTANT, full_response (aggregate contents)), (USER, u')])
               = (None, contents', printed', b'') \<longrightarrow>
             turns (ChatCompletionAgent streamTurn) [u, u'] (h, b, out) =
               (None,
                h @ [(USER, u), (ASSISTANT, full_response (aggregate contents)),
                     (USER, u'), (ASSISTANT, full_response (aggregate contents'))],
                b'',
                out @ print_user u @ printed @ print_response (aggregate contents)
                  @ print_user u' @ printed' @ print_response (aggregate contents')))"
proof (intro conjI impI)
  let ?h1 = "h @ [(USER, u), (ASSISTANT, full_response (aggregate contents))]"
  let ?out1 = "out @ print_user u @ printed @ print_response (aggregate contents)"
  show 1: "turn (ChatCompletionAgent streamTurn) (h, b, out) u = (None, ?h1, b', ?out1)"
    using assms by (rule turn_completed)
  then have 2: "turns (ChatCompletionAgent streamTurn) (u # vs) (h, b, out) =
      turns (ChatCompletionAgent streamTurn) vs (?h1, b', ?out1)" for vs
    by simp
  then show "turns (ChatCompletionAgent streamTurn) (u # us) (h, b, out) =
      turns (ChatCompletionAgent streamTurn) us (?h1, b', ?out1)" .
  assume "streamTurn b'
      (h @ [(USER, u), (ASSISTANT, full_response (aggregate contents)), (USER, u')])
      = (None, contents', printed', b'')"
  then have "streamTurn b' (?h1 @ [(USER, u')]) = (None, contents', printed', b'')"
    by simp
  from turn_completed [where streamTurn = streamTurn and b = b' and h = ?h1 and u = u'
      and out = ?out1, OF this]
  have "turn (ChatCompletionAgent streamTurn) (?h1, b', ?out1) u' =
      (None, ?h1 @ [(USER, u'), (ASSISTANT, full_response (aggregate contents'))], b'',
       ?out1 @ print_user u' @ printed' @ print_response (aggregate contents'))" .
  with 2 [of "[u']"] show "turns (ChatCompletionAgent streamTurn) [u, u'] (h, b, out) =
      (None,
       h @ [(USER, u), (ASSISTANT, full_response (aggregate contents)),
            (USER, u'), (ASSISTANT, full_response (aggregate contents'))],
       b'',
       out @ print_user u @ printed @ print_response (aggregate contents)
         @ print_user u' @ printed' @ print_response (aggregate contents'))"
    by simp
qed

theorem assistant_turn_appended_witness:
  "fst (snd (turns (ChatCompletionAgent recording_backend)
       [''Plan me a day trip.'', ''Plan me another vacation.''] ([], [], [])))
     = [(USER, ''Plan me a day trip.''), (ASSISTANT, ''Reply to: Plan me a day trip.''),
        (USER, ''Plan me another vacation.''),
        (ASSISTANT, ''Reply to: Plan me another vacation.'')]
   \<and> fst (snd (snd (turns (ChatCompletionAgent recording_backend)
       [''Plan me a day trip.'', ''Plan me another vacation.''] ([], [], []))))
     = [[(USER, ''Plan me a day trip.'')],
        [(USER, ''Plan me a day trip.''), (ASSISTANT, ''Reply to: Plan me a day trip.''),
         (USER, ''Plan me another vacation.'')]]"
proof -
  let ?u = "''Plan me a day trip.''" and ?u' = "''Plan me another vacation.''"
  let ?c = "[text_message ''Reply to: Plan me a day trip.'']"
  let ?c' = "[text_message ''Reply to: Plan me another vacation.'']"
  have r: "full_response (aggregate ?c) = ''Reply to: Plan me a day trip.''"
    and r': "full_response (aggregate ?c') = ''Reply to: Plan me another vacation.''"
    by (simp_all add: text_message_def aggregate_def response_init_def collect_def
        truthy_def strip_def isspace_def)
  have 1: "recording_backend [] ([] @ [(USER, ?u)]) = (None, ?c, [], [[(USER, ?u)]])"
    by (simp add: recording_backend_def)
  have 2: "recording_backend [[(USER, ?u)]]
      ([] @ [(USER, ?u), (ASSISTANT, full_response (aggregate ?c)), (USER, ?u')])
      = (None, ?c', [],
         [[(USER, ?u)], [(USER, ?u), (ASSISTANT, ''Reply to: Plan me a day trip.''), (USER, ?u')]])"
    by (simp add: recording_backend_def r)
  from assistant_turn_appended [where streamTurn = recording_backend and b = "[]"
      and h = "[]" and u = ?u and out = "[]" and u' = ?u' and contents' = ?c'
      and printed' = "[]", OF 1] 2
  have "turns (ChatCompletionAgent recording_backend) [?u, ?u'] ([], [], []) =
      (None,
       [] @ [(USER, ?u), (ASSISTANT, full_response (aggregate ?c)),
             (USER, ?u'), (ASSISTANT, full_response (aggregate ?c'))],
       [[(USER, ?u)], [(USER, ?u), (ASSISTANT, ''Reply to: Plan me a day trip.''), (USER, ?u')]],
       [] @ print_user ?u @ [] @ print_response (aggregate ?c)
         @ print_user ?u' @ [] @ print_response (aggregate ?c'))"
    by blast
  then show ?thesis
    by (simp add: r r')
qed

end
